theory Spec2Isabelle
  imports Complex_Main
begin

section \<open>Strings and numbers of the source\<close>

text \<open>
  The source is TypeScript. A string is modelled as a \<open>char list\<close>, one element per
  code unit, so that \<open>length\<close> is the \<open>.length\<close> of the source; the only character
  the code inspects is the line feed. A number is a \<open>real\<close>: every token count the
  code computes is a multiple of one quarter far below \<open>2 ^ 53\<close>, so the double
  arithmetic of the source is exact on them.
\<close>

definition NL :: char where
  "NL = CHR 0x0A"

text \<open>
  \<open>s.split('\n')\<close>: never empty; the empty string has the one line \<open>''\<close>. The
  first branch of the inner \<open>case\<close> is there for totality only and is never taken.
\<close>

fun split_nl :: "string \<Rightarrow> string list" where
  "split_nl [] = [[]]"
| "split_nl (c # cs) =
     (if c = NL then [] # split_nl cs
      else (case split_nl cs of
              [] \<Rightarrow> [[c]]
            | l # ls \<Rightarrow> (c # l) # ls))"

section \<open>Budget sub-splitter\<close>

text \<open>
  \<open>CONTEXT_TOKENS_CUTOFF\<close> comes from a constants module that is not part of the
  sources at hand, so it is a parameter \<open>cutoff\<close> of everything below. The factor
  \<open>0.8\<close> is taken as the exact fraction; since the theorems hold for every
  \<open>cutoff\<close>, they hold for whatever budget the rounded product is.
\<close>

definition TOKEN_CUTOFF_ADJUSTED :: "real \<Rightarrow> real" where
  "TOKEN_CUTOFF_ADJUSTED cutoff = cutoff * 0.8"

text \<open>The estimate the source uses inline: one token for four characters.\<close>

definition estimatedTokens :: "string \<Rightarrow> real" where
  "estimatedTokens s = real (length s) / 4"

text \<open>
  The \<open>for\<close> loop of \<open>splitWithinTokenCutoff\<close> over the lines, on the state
  \<open>(subSections, accTokenCounter, accLines)\<close>.
\<close>

fun splitLoop ::
  "real \<Rightarrow> string list \<Rightarrow> string list \<times> real \<times> string \<Rightarrow> string list \<times> real \<times> string" where
  "splitLoop B [] st = st"
| "splitLoop B (line # lines) (subSections, accTokenCounter, accLines) =
     (let lineTokenCount = real (length line) / 4 in
      if accTokenCounter + lineTokenCount < B
      then splitLoop B lines
             (subSections, accTokenCounter + lineTokenCount, accLines @ [NL] @ line)
      else splitLoop B lines (subSections @ [accLines], 0, line))"

definition splitWithinTokenCutoff :: "real \<Rightarrow> string \<Rightarrow> string list" where
  "splitWithinTokenCutoff cutoff section =
     (if real (length section) / 4 < TOKEN_CUTOFF_ADJUSTED cutoff then [section]
      else (case splitLoop (TOKEN_CUTOFF_ADJUSTED cutoff) (split_nl section) ([], 0, []) of
              (subSections, accTokenCounter, accLines) \<Rightarrow>
                if accLines \<noteq> [] then subSections @ [accLines] else subSections))"

text \<open>Measures used to state what the loop guarantees about a piece.\<close>

definition piecesLines :: "string list \<Rightarrow> string list" where
  "piecesLines pieces = concat (map split_nl pieces)"

definition tailLinesTokens :: "string \<Rightarrow> real" where
  "tailLinesTokens p = sum_list (map estimatedTokens (tl (split_nl p)))"

section \<open>Section splitter\<close>

text \<open>
  An mdast node carries its \<open>type\<close> tag, its children and its literal value; the root
  holds the top-level children.
\<close>

datatype content = Content (node_type: string) (node_children: "content list") (node_value: string)

datatype root = Root (children: "content list")

text \<open>
  One step of the \<open>reduce\<close> in \<open>splitTreeBy\<close>. \<open>lastTree\<close> is undefined exactly when
  \<open>trees\<close> is empty; \<open>lastTree.children.push(node)\<close> mutates the last tree in place,
  which here replaces the last element.
\<close>

definition splitTreeBy_step :: "(content \<Rightarrow> bool) \<Rightarrow> root list \<Rightarrow> content \<Rightarrow> root list" where
  "splitTreeBy_step predicate trees node =
     (if trees = [] \<or> predicate node then trees @ [Root [node]]
      else butlast trees @ [Root (children (last trees) @ [node])])"

definition splitTreeBy :: "root \<Rightarrow> (content \<Rightarrow> bool) \<Rightarrow> root list" where
  "splitTreeBy tree predicate = foldl (splitTreeBy_step predicate) [] (children tree)"

definition isHeading :: "content \<Rightarrow> bool" where
  "isHeading node = (node_type node = ''heading'')"

definition notMdxNode :: "content \<Rightarrow> bool" where
  "notMdxNode node =
     (node_type node \<notin> set [''mdxjsEsm'', ''mdxJsxFlowElement'', ''mdxJsxTextElement'',
                              ''mdxFlowExpression'', ''mdxTextExpression''])"

section \<open>Format normalizer\<close>

text \<open>A thrown value, kept as the text that \<open>`${error}`\<close> gives for it.\<close>

datatype exn = Exn (exn_text: string)

text \<open>
  The parsing and rendering packages the source imports (mdast-util-from-markdown,
  unist-util-filter, mdast-util-to-markdown, Markdoc, turndown) and the two helpers
  \<open>extractFrontmatter\<close> and \<open>getFileType\<close>, whose modules are not part of the sources
  at hand, are parameters. Each parser may throw. \<open>fromMarkdown content asMDX\<close> stands
  for the call with or without the MDX extensions; \<open>filter_tree\<close> returns \<open>None\<close>
  where the package returns a falsy tree; \<open>Markdoc_renderers_html\<close> returns \<open>None\<close>
  where the renderer returns a falsy value.
\<close>

type_synonym meta = "(string \<times> string) list"

record ('ast, 'rt) libs =
  fromMarkdown :: "string \<Rightarrow> bool \<Rightarrow> exn + root"
  filter_tree :: "root \<Rightarrow> (content \<Rightarrow> bool) \<Rightarrow> exn + root option"
  toMarkdown :: "root \<Rightarrow> exn + string"
  Markdoc_parse :: "string \<Rightarrow> exn + 'ast"
  Markdoc_transform :: "'ast \<Rightarrow> exn + 'rt"
  Markdoc_renderers_html :: "'rt \<Rightarrow> exn + string option"
  turndown :: "string \<Rightarrow> exn + string"
  extractFrontmatter :: "string \<Rightarrow> meta"
  getFileType :: "string \<Rightarrow> string"

text \<open>\<open>xs.map(f)\<close> where \<open>f\<close> may throw: the first throw ends the map.\<close>

fun map_throwing :: "('a \<Rightarrow> exn + 'b) \<Rightarrow> 'a list \<Rightarrow> exn + 'b list" where
  "map_throwing f [] = Inr []"
| "map_throwing f (x # xs) =
     (case f x of
        Inl e \<Rightarrow> Inl e
      | Inr y \<Rightarrow> (case map_throwing f xs of Inl e \<Rightarrow> Inl e | Inr ys \<Rightarrow> Inr (y # ys)))"

definition splitMarkdownIntoSections ::
  "('ast, 'rt) libs \<Rightarrow> string \<Rightarrow> bool \<Rightarrow> exn + string list" where
  "splitMarkdownIntoSections L content' asMDX =
     (case fromMarkdown L content' asMDX of
        Inl e \<Rightarrow> Inl e
      | Inr mdxTree \<Rightarrow>
          (case filter_tree L mdxTree notMdxNode of
             Inl e \<Rightarrow> Inl e
           | Inr None \<Rightarrow> Inr []
           | Inr (Some mdTree) \<Rightarrow> map_throwing (toMarkdown L) (splitTreeBy mdTree isHeading)))"

definition splitMarkdocIntoSections :: "('ast, 'rt) libs \<Rightarrow> string \<Rightarrow> exn + string list" where
  "splitMarkdocIntoSections L content' =
     (case Markdoc_parse L content' of
        Inl e \<Rightarrow> Inl e
      | Inr ast \<Rightarrow>
          (case Markdoc_transform L ast of
             Inl e \<Rightarrow> Inl e
           | Inr transformed \<Rightarrow>
               (case Markdoc_renderers_html L transformed of
                  Inl e \<Rightarrow> Inl e
                | Inr rendered \<Rightarrow>
                    (case turndown L (case rendered of None \<Rightarrow> [] | Some html \<Rightarrow> html) of
                       Inl e \<Rightarrow> Inl e
                     | Inr md \<Rightarrow> splitMarkdownIntoSections L md False))))"

definition splitHtmlIntoSections :: "('ast, 'rt) libs \<Rightarrow> string \<Rightarrow> exn + string list" where
  "splitHtmlIntoSections L content' =
     (case turndown L content' of
        Inl e \<Rightarrow> Inl e
      | Inr md \<Rightarrow> splitMarkdownIntoSections L md False)"

record fileData =
  file_path :: string
  file_name :: string
  file_content :: string

record fileSectionData =
  sections :: "string list"
  meta :: meta

text \<open>
  \<open>processFile\<close>: the \<open>try\<close>/\<open>catch\<close> around the MDX parse is the inner \<open>case\<close>; a throw
  of any other path leaves the function.
\<close>

definition processFile :: "('ast, 'rt) libs \<Rightarrow> real \<Rightarrow> fileData \<Rightarrow> exn + fileSectionData" where
  "processFile L cutoff file =
     (let meta' = extractFrontmatter L (file_content file);
          fileType = getFileType L (file_name file);
          parsed =
            (if fileType = ''mdoc'' then splitMarkdocIntoSections L (file_content file)
             else if fileType = ''html'' then splitHtmlIntoSections L (file_content file)
             else (case splitMarkdownIntoSections L (file_content file) True of
                     Inr secs \<Rightarrow> Inr secs
                   | Inl e \<Rightarrow> splitMarkdocIntoSections L (file_content file)))
      in case parsed of
           Inl e \<Rightarrow> Inl e
         | Inr secs \<Rightarrow>
             Inr \<lparr>sections = foldl (\<lambda>acc v. acc @ splitWithinTokenCutoff cutoff v) [] secs,
                  meta = meta'\<rparr>)"

section \<open>Embedding driver and persistence\<close>

text \<open>
  The function talks to three collaborators: the relational store, the embedding
  provider and the counter store. Every call it makes is recorded, in order, as an
  \<open>event\<close> of a trace; what a collaborator answers is a parameter, a function of the
  trace up to and including the call, so that any deterministic collaborator is covered.
  The helpers \<open>getFileAtPath\<close> and \<open>createFile\<close> belong to a module that is not part
  of the sources at hand: they are taken to answer with a file id or a falsy value
  (\<open>None\<close>), as the code's tests \<open>if (fileId)\<close> and \<open>if (!fileId)\<close> read them. Store and
  counter calls are taken to return (the store reports a failure in the \<open>error\<close> field of
  its answer); the provider call may throw. The counter's key also depends on the
  current date, which the trace leaves out. Console output is left out.
\<close>

type_synonym projectId = string
type_synonym fileId = nat
type_synonym embedding = "real list"

record embeddingRow =
  file_id :: fileId
  content :: string
  embedding :: embedding
  token_count :: nat

datatype event =
    GetFileAtPath projectId string
  | DeleteFileSections fileId
  | UpdateFileMeta fileId meta
  | CreateFile projectId string meta
  | Delay nat
  | CreateEmbedding string "string option"
  | InsertFileSections "embeddingRow list"
  | IncrBy projectId nat

text \<open>
  The provider's answer as far as the code reads it: \<open>usage\<close> may be missing, and so
  may \<open>usage.total_tokens\<close>; \<open>data\<close> holds the embeddings, and may be empty.
\<close>

record embeddingResult =
  usage :: "nat option option"
  data :: "embedding list"

record env =
  getFileAtPath_r :: "event list \<Rightarrow> fileId option"
  createFile_r :: "event list \<Rightarrow> fileId option"
  createEmbedding_r :: "event list \<Rightarrow> exn + embeddingResult"
  insert_r :: "event list \<Rightarrow> string option"

record errorEntry =
  path :: string
  message :: string

definition createEmbedding ::
  "env \<Rightarrow> string \<Rightarrow> string option \<Rightarrow> event list \<Rightarrow> (exn + embeddingResult) \<times> event list" where
  "createEmbedding E input' key tr =
     (let tr' = tr @ [CreateEmbedding input' key] in (createEmbedding_r E tr', tr'))"

text \<open>
  \<open>backOff\<close> of the exponential-backoff package with its default policy, as the source
  calls it: every failure is retried, no delay before the first attempt, the delay
  doubles from \<open>startingDelay\<close>, and the last error is thrown when the attempts are used
  up. The first argument of \<open>backOff_from\<close> counts the attempts left.
\<close>

record backOffOptions =
  startingDelay :: nat
  numOfAttempts :: nat

fun backOff_from ::
  "nat \<Rightarrow> (event list \<Rightarrow> (exn + 'a) \<times> event list) \<Rightarrow> nat \<Rightarrow> nat \<Rightarrow> event list
   \<Rightarrow> (exn + 'a) \<times> event list" where
  "backOff_from 0 request delay0 attemptNumber tr = (Inl (Exn ''Error: Something went wrong.''), tr)"
| "backOff_from (Suc left) request delay0 attemptNumber tr =
     (let tr1 = (if attemptNumber = 0 then tr
                 else tr @ [Delay (delay0 * 2 ^ (attemptNumber - 1))])
      in case request tr1 of
           (Inr v, tr2) \<Rightarrow> (Inr v, tr2)
         | (Inl e, tr2) \<Rightarrow>
             if left = 0 then (Inl e, tr2)
             else backOff_from left request delay0 (Suc attemptNumber) tr2)"

definition backOff ::
  "(event list \<Rightarrow> (exn + 'a) \<times> event list) \<Rightarrow> backOffOptions \<Rightarrow> event list
   \<Rightarrow> (exn + 'a) \<times> event list" where
  "backOff request options tr =
     backOff_from (numOfAttempts options) request (startingDelay options) 0 tr"

definition embedOptions :: backOffOptions where
  "embedOptions = \<lparr>startingDelay = 10000, numOfAttempts = 10\<rparr>"

text \<open>The mutable locals of \<open>generateFileEmbeddings\<close> together with the trace so far.\<close>

record run =
  embeddingsTokenCount :: nat
  embeddingsData :: "embeddingRow list"
  errors :: "errorEntry list"
  trace :: "event list"

definition collapseNewlines :: "string \<Rightarrow> string" where
  "collapseNewlines section = map (\<lambda>c. if c = NL then CHR '' '' else c) section"

definition embedError :: "string \<Rightarrow> string \<Rightarrow> string \<Rightarrow> errorEntry" where
  "embedError p input' err =
     \<lparr>path = p,
      message = ''Unable to generate embeddings for section starting with '' @ [CHR 0x27]
                @ take 20 input' @ ''...'' @ [CHR 0x27] @ '': '' @ err\<rparr>"

text \<open>
  The text of the TypeError thrown when a property of a missing value is read; the
  property's name is all the model keeps of it.
\<close>

definition typeError :: "string \<Rightarrow> string" where
  "typeError prop = ''TypeError: Cannot read properties of undefined (reading '' @ [CHR 0x27]
                    @ prop @ [CHR 0x27] @ '')''"

text \<open>
  The body of the loop over the sections. Inside the \<open>try\<close>, the token count is added
  first; building the row then throws when \<open>data[0]\<close> or \<open>usage\<close> is missing, and the
  \<open>catch\<close> records that like a failed call.
\<close>

definition embedSection ::
  "env \<Rightarrow> nat \<Rightarrow> fileId \<Rightarrow> string \<Rightarrow> string option \<Rightarrow> string \<Rightarrow> run \<Rightarrow> run" where
  "embedSection E MIN_CONTENT_LENGTH fid p key section st =
     (let input' = collapseNewlines section in
      if length input' < MIN_CONTENT_LENGTH then st
      else (case backOff (createEmbedding E input' key) embedOptions (trace st) of
              (Inl e, tr) \<Rightarrow>
                st\<lparr>errors := errors st @ [embedError p input' (exn_text e)], trace := tr\<rparr>
            | (Inr r, tr) \<Rightarrow>
                (let counted = embeddingsTokenCount st
                       + (case usage r of Some (Some n) \<Rightarrow> n | _ \<Rightarrow> 0)
                 in case data r of
                      [] \<Rightarrow>
                        st\<lparr>embeddingsTokenCount := counted,
                           errors := errors st @ [embedError p input' (typeError ''embedding'')],
                           trace := tr\<rparr>
                    | v # _ \<Rightarrow>
                        (case usage r of
                           None \<Rightarrow>
                             st\<lparr>embeddingsTokenCount := counted,
                                errors := errors st
                                  @ [embedError p input' (typeError ''total_tokens'')],
                                trace := tr\<rparr>
                         | Some total_tokens \<Rightarrow>
                             st\<lparr>embeddingsTokenCount := counted,
                                embeddingsData := embeddingsData st
                                  @ [\<lparr>file_id = fid, content = input', embedding = v,
                                      token_count = (case total_tokens of None \<Rightarrow> 0 | Some n \<Rightarrow> n)\<rparr>],
                                trace := tr\<rparr>))))"

fun embedSections ::
  "env \<Rightarrow> nat \<Rightarrow> fileId \<Rightarrow> string \<Rightarrow> string option \<Rightarrow> string list \<Rightarrow> run \<Rightarrow> run" where
  "embedSections E MIN_CONTENT_LENGTH fid p key [] st = st"
| "embedSections E MIN_CONTENT_LENGTH fid p key (section # rest) st =
     embedSections E MIN_CONTENT_LENGTH fid p key rest
       (embedSection E MIN_CONTENT_LENGTH fid p key section st)"

text \<open>Finding the file, and replacing its old rows or creating it.\<close>

definition resolveFile ::
  "env \<Rightarrow> projectId \<Rightarrow> string \<Rightarrow> meta \<Rightarrow> fileId option \<times> event list" where
  "resolveFile E pid p m =
     (let tr0 = [GetFileAtPath pid p] in
      case getFileAtPath_r E tr0 of
        Some fid \<Rightarrow> (Some fid, tr0 @ [DeleteFileSections fid, UpdateFileMeta fid m])
      | None \<Rightarrow> (let tr1 = tr0 @ [CreateFile pid p m] in (createFile_r E tr1, tr1)))"

text \<open>The bulk insert with its one-at-a-time fallback, then the counter.\<close>

definition storeEmbeddings ::
  "env \<Rightarrow> projectId \<Rightarrow> string \<Rightarrow> run \<Rightarrow> errorEntry list \<times> event list" where
  "storeEmbeddings E pid p st =
     (let tr1 = trace st @ [InsertFileSections (embeddingsData st)];
          (errs, tr2) =
            (case insert_r E tr1 of
               None \<Rightarrow> (errors st, tr1)
             | Some msg \<Rightarrow>
                 (errors st @ [\<lparr>path = p, message = ''Error storing embeddings: '' @ msg\<rparr>],
                  foldl (\<lambda>t d. t @ [InsertFileSections [d]]) tr1 (embeddingsData st)))
      in (errs, tr2 @ [IncrBy pid (embeddingsTokenCount st)]))"

definition generateFileEmbeddings ::
  "('ast, 'rt) libs \<Rightarrow> real \<Rightarrow> nat \<Rightarrow> env \<Rightarrow> projectId \<Rightarrow> fileData \<Rightarrow> string option
   \<Rightarrow> (exn + errorEntry list) \<times> event list" where
  "generateFileEmbeddings L cutoff MIN_CONTENT_LENGTH E pid file byoOpenAIKey =
     (case processFile L cutoff file of
        Inl e \<Rightarrow> (Inl e, [])
      | Inr fsd \<Rightarrow>
          (case resolveFile E pid (file_path file) (meta fsd) of
             (None, tr) \<Rightarrow>
               (Inr [\<lparr>path = file_path file,
                      message = ''Unable to create file '' @ file_path file @ ''.''\<rparr>], tr)
           | (Some fid, tr) \<Rightarrow>
               (let st = embedSections E MIN_CONTENT_LENGTH fid (file_path file) byoOpenAIKey
                           (sections fsd)
                           \<lparr>embeddingsTokenCount = 0, embeddingsData = [], errors = [],
                            trace = tr\<rparr>;
                    (errs, tr') = storeEmbeddings E pid (file_path file) st
                in (Inr errs, tr'))))"

text \<open>Kinds of events, to speak about the order of the calls.\<close>

fun isStoreMutation :: "event \<Rightarrow> bool" where
  "isStoreMutation (DeleteFileSections _) = True"
| "isStoreMutation (UpdateFileMeta _ _) = True"
| "isStoreMutation (CreateFile _ _ _) = True"
| "isStoreMutation (InsertFileSections _) = True"
| "isStoreMutation (IncrBy _ _) = True"
| "isStoreMutation _ = False"

fun isProviderEvent :: "event \<Rightarrow> bool" where
  "isProviderEvent (CreateEmbedding _ _) = True"
| "isProviderEvent (Delay _) = True"
| "isProviderEvent _ = False"

fun isEmbeddingCall :: "event \<Rightarrow> bool" where
  "isEmbeddingCall (CreateEmbedding _ _) = True"
| "isEmbeddingCall _ = False"

fun isInsert :: "event \<Rightarrow> bool" where
  "isInsert (InsertFileSections _) = True"
| "isInsert _ = False"

text \<open>
  The property ``every mutation of the store comes after the last call of the
  provider'', as a check on a trace.
\<close>

fun mutationsAfterEmbedding :: "event list \<Rightarrow> bool" where
  "mutationsAfterEmbedding [] = True"
| "mutationsAfterEmbedding (e # es) =
     ((isStoreMutation e \<longrightarrow> \<not> list_ex isEmbeddingCall es) \<and> mutationsAfterEmbedding es)"

text \<open>
  The calls of \<open>left\<close> attempts in a row that all fail, the first of them being
  attempt number \<open>attemptNumber\<close>.
\<close>

fun attemptsTrace :: "string \<Rightarrow> string option \<Rightarrow> nat \<Rightarrow> nat \<Rightarrow> nat \<Rightarrow> event list" where
  "attemptsTrace input' key delay0 attemptNumber 0 = []"
| "attemptsTrace input' key delay0 attemptNumber (Suc left) =
     (if attemptNumber = 0 then [] else [Delay (delay0 * 2 ^ (attemptNumber - 1))])
     @ [CreateEmbedding input' key]
     @ attemptsTrace input' key delay0 (Suc attemptNumber) left"

section \<open>Example collaborators\<close>

text \<open>
  Small concrete collaborators on which the theorems are run. The example parser
  rejects, as MDX, any text with an opening brace, and otherwise yields one paragraph;
  the example provider rejects every input that starts with \<open>bad\<close> and otherwise bills
  one token per character.
\<close>

definition exampleLibs :: "(string, string) libs" where
  "exampleLibs =
     \<lparr>fromMarkdown = (\<lambda>c asMDX.
        if asMDX \<and> CHR ''{'' \<in> set c then Inl (Exn ''Error: Could not parse expression'')
        else Inr (Root [Content ''paragraph'' [] c])),
      filter_tree = (\<lambda>t keep. Inr (Some (Root (filter keep (children t))))),
      toMarkdown = (\<lambda>t. Inr (concat (map node_value (children t)))),
      Markdoc_parse = Inr,
      Markdoc_transform = Inr,
      Markdoc_renderers_html = (\<lambda>r. Inr (Some r)),
      turndown = Inr,
      extractFrontmatter = (\<lambda>c. []),
      getFileType = (\<lambda>n. ''md'')\<rparr>"

definition exampleEnv :: "fileId option \<Rightarrow> fileId option \<Rightarrow> string option \<Rightarrow> env" where
  "exampleEnv found created insertError =
     \<lparr>getFileAtPath_r = (\<lambda>h. found),
      createFile_r = (\<lambda>h. created),
      createEmbedding_r = (\<lambda>h.
        case rev h of
          CreateEmbedding i k # _ \<Rightarrow>
            if take 3 i = ''bad'' then Inl (Exn ''Error: 429'')
            else Inr \<lparr>usage = Some (Some (length i)), data = [[1]]\<rparr>
        | _ \<Rightarrow> Inl (Exn ''Error: no call'')),
      insert_r = (\<lambda>h. insertError)\<rparr>"

definition exampleFile :: fileData where
  "exampleFile = \<lparr>file_path = ''docs/a.md'', file_name = ''a.md'', file_content = ''Hello {world}''\<rparr>"

section \<open>Lines of a string\<close>

lemma split_nl_nonempty: "split_nl s \<noteq> []"
  by (induction s) (auto split: list.splits)

lemma split_nl_append_NL: "split_nl (a @ NL # b) = split_nl a @ split_nl b"
  by (induction a) (auto split: list.splits simp: split_nl_nonempty)

lemma split_nl_no_NL: "NL \<notin> set l \<Longrightarrow> split_nl l = [l]"
  by (induction l) auto

lemma split_nl_lines_no_NL: "l \<in> set (split_nl s) \<Longrightarrow> NL \<notin> set l"
proof (induction s arbitrary: l)
  case Nil
  then show ?case by simp
next
  case (Cons c cs)
  show ?case
  proof (cases "c = NL")
    case True
    with Cons show ?thesis by auto
  next
    case False
    obtain x xs where sp: "split_nl cs = x # xs"
      using split_nl_nonempty by (cases "split_nl cs") auto
    with Cons.prems False have "l = c # x \<or> l \<in> set xs" by simp
    then show ?thesis
    proof
      assume "l = c # x"
      moreover have "NL \<notin> set x" using Cons.IH sp by simp
      ultimately show ?thesis using False by auto
    next
      assume "l \<in> set xs"
      then show ?thesis using Cons.IH sp by simp
    qed
  qed
qed

lemma split_nl_total_length:
  "Suc (length p) = sum_list (map length (split_nl p)) + length (split_nl p)"
  by (induction p) (auto split: list.splits)

lemma sum_estimatedTokens:
  "sum_list (map estimatedTokens ls) = real (sum_list (map length ls)) / 4"
  by (induction ls) (simp_all add: estimatedTokens_def add_divide_distrib)

lemma piece_tokens:
  "estimatedTokens p =
     estimatedTokens (hd (split_nl p)) + tailLinesTokens p + real (length (split_nl p) - 1) / 4"
proof -
  obtain l ls where sp: "split_nl p = l # ls"
    using split_nl_nonempty by (cases "split_nl p") auto
  have "Suc (length p) = length l + sum_list (map length ls) + Suc (length ls)"
    using split_nl_total_length[of p] sp by simp
  then have "length p = length l + sum_list (map length ls) + length ls" by simp
  then have "real (length p) = real (length l) + real (sum_list (map length ls)) + real (length ls)"
    by simp
  then show ?thesis
    by (simp add: sp tailLinesTokens_def sum_estimatedTokens estimatedTokens_def add_divide_distrib)
qed

section \<open>The loop of the sub-splitter\<close>

lemma splitLoop_lines:
  "\<forall>l\<in>set ls. NL \<notin> set l \<Longrightarrow>
   splitLoop B ls (subs, cnt, acc) = (subs', cnt', acc') \<Longrightarrow>
   piecesLines subs' @ split_nl acc' = piecesLines subs @ split_nl acc @ ls"
proof (induction ls arbitrary: subs cnt acc)
  case Nil
  then show ?case by simp
next
  case (Cons l ls)
  then show ?case
    by (auto simp: Let_def piecesLines_def split_nl_append_NL split_nl_no_NL split: if_splits)
qed

lemma splitLoop_acc:
  "0 < B \<Longrightarrow> cnt < B \<Longrightarrow> acc \<noteq> [] \<or> ls \<noteq> [] \<Longrightarrow>
   splitLoop B ls (subs, cnt, acc) = (subs', cnt', acc') \<Longrightarrow> acc' \<noteq> []"
proof (induction ls arbitrary: subs cnt acc)
  case Nil
  then show ?case by simp
next
  case (Cons l ls)
  show ?case
  proof (cases "cnt + real (length l) / 4 < B")
    case True
    with Cons.prems(4)
    have "splitLoop B ls (subs, cnt + real (length l) / 4, acc @ [NL] @ l) = (subs', cnt', acc')"
      by simp
    from Cons.IH[OF Cons.prems(1) True _ this] show ?thesis by simp
  next
    case False
    with Cons.prems(2) have "l \<noteq> []" by auto
    moreover from False Cons.prems(4)
    have "splitLoop B ls (subs @ [acc], 0, l) = (subs', cnt', acc')"
      by simp
    ultimately show ?thesis using Cons.IH[OF Cons.prems(1) Cons.prems(1)] by blast
  qed
qed

lemma splitLoop_budget:
  "0 < B \<Longrightarrow> cnt < B \<Longrightarrow> tailLinesTokens acc = cnt \<Longrightarrow>
   \<forall>p\<in>set subs. tailLinesTokens p < B \<Longrightarrow>
   \<forall>l\<in>set ls. NL \<notin> set l \<Longrightarrow>
   splitLoop B ls (subs, cnt, acc) = (subs', cnt', acc') \<Longrightarrow>
   cnt' < B \<and> tailLinesTokens acc' = cnt' \<and> (\<forall>p\<in>set subs'. tailLinesTokens p < B)"
proof (induction ls arbitrary: subs cnt acc)
  case Nil
  then show ?case by simp
next
  case (Cons l ls)
  have noNL: "NL \<notin> set l" using Cons.prems(5) by simp
  have rest: "\<forall>l\<in>set ls. NL \<notin> set l" using Cons.prems(5) by simp
  show ?case
  proof (cases "cnt + real (length l) / 4 < B")
    case True
    with Cons.prems(6)
    have run: "splitLoop B ls (subs, cnt + real (length l) / 4, acc @ [NL] @ l) = (subs', cnt', acc')"
      by simp
    have "tailLinesTokens (acc @ [NL] @ l) = cnt + real (length l) / 4"
      using noNL Cons.prems(3) split_nl_nonempty[of acc]
      by (simp add: tailLinesTokens_def split_nl_append_NL split_nl_no_NL estimatedTokens_def)
    from Cons.IH[OF Cons.prems(1) True this Cons.prems(4) rest run]
    show ?thesis .
  next
    case False
    with Cons.prems(6) have run: "splitLoop B ls (subs @ [acc], 0, l) = (subs', cnt', acc')"
      by simp
    have r: "tailLinesTokens l = 0"
      using noNL by (simp add: tailLinesTokens_def split_nl_no_NL)
    have s: "\<forall>p\<in>set (subs @ [acc]). tailLinesTokens p < B"
      using Cons.prems(2,3,4) by auto
    from Cons.IH[OF Cons.prems(1) Cons.prems(1) r s rest run]
    show ?thesis .
  qed
qed

lemma splitLoop_prefix:
  "\<exists>ext. fst (splitLoop B ls (subs, cnt, acc)) = subs @ ext"
proof (induction ls arbitrary: subs cnt acc)
  case Nil
  then show ?case by simp
next
  case (Cons l ls)
  show ?case
  proof (cases "cnt + real (length l) / 4 < B")
    case True
    then show ?thesis using Cons.IH by simp
  next
    case False
    from Cons.IH[of "subs @ [acc]" 0 l] obtain ext where
      "fst (splitLoop B ls (subs @ [acc], 0, l)) = subs @ ([acc] @ ext)" by auto
    with False show ?thesis by simp
  qed
qed

section \<open>The reduce of the section splitter\<close>

lemma splitTreeBy_step_concat:
  "concat (map children (splitTreeBy_step p trees n)) = concat (map children trees) @ [n]"
proof (cases "trees = [] \<or> p n")
  case True
  then show ?thesis by (auto simp: splitTreeBy_step_def)
next
  case False
  then have ne: "trees \<noteq> []" by simp
  have "concat (map children (butlast trees @ [last trees])) = concat (map children trees)"
    using ne by simp
  then have "concat (map children (butlast trees)) @ children (last trees) = concat (map children trees)"
    by simp
  with False show ?thesis by (simp add: splitTreeBy_step_def)
qed

lemma foldl_step_concat:
  "concat (map children (foldl (splitTreeBy_step p) [] ns)) = ns"
  by (induction ns rule: rev_induct) (simp_all add: splitTreeBy_step_concat)

lemma foldl_step_nonempty:
  "ns \<noteq> [] \<Longrightarrow> foldl (splitTreeBy_step p) [] ns \<noteq> []"
  by (induction ns rule: rev_induct) (auto simp: splitTreeBy_step_def)

lemma splitTreeBy_step_length:
  "length (splitTreeBy_step p trees n)
     = (if trees = [] \<or> p n then Suc (length trees) else length trees)"
  by (cases "trees = []") (auto simp: splitTreeBy_step_def)

lemma foldl_step_length:
  "length (foldl (splitTreeBy_step p) [] ns) =
     length (filter p ns) + (if ns \<noteq> [] \<and> \<not> p (hd ns) then 1 else 0)"
proof (induction ns rule: rev_induct)
  case Nil
  then show ?case by simp
next
  case (snoc n ns)
  show ?case
  proof (cases "ns = []")
    case True
    then show ?thesis by (simp add: splitTreeBy_step_length)
  next
    case False
    then have "foldl (splitTreeBy_step p) [] ns \<noteq> []" by (rule foldl_step_nonempty)
    with snoc False show ?thesis by (simp add: splitTreeBy_step_length)
  qed
qed

lemma foldl_step_no_match:
  "filter p ns = [] \<Longrightarrow>
   foldl (splitTreeBy_step p) [] ns = (if ns = [] then [] else [Root ns])"
proof (induction ns rule: rev_induct)
  case Nil
  then show ?case by simp
next
  case (snoc n ns)
  then have "\<not> p n" and "filter p ns = []" by (auto split: if_splits)
  with snoc.IH show ?case by (simp add: splitTreeBy_step_def)
qed

lemma map_throwing_length: "map_throwing f xs = Inr ys \<Longrightarrow> length ys = length xs"
  by (induction xs arbitrary: ys) (auto split: sum.splits)

section \<open>Retries and the loop over the sections\<close>

lemma backOff_from_numeral:
  "backOff_from (numeral k) request delay0 a tr
     = backOff_from (Suc (pred_numeral k)) request delay0 a tr"
  by (simp only: numeral_eq_Suc)

lemma attemptsTrace_numeral:
  "attemptsTrace i key d a (numeral k) = attemptsTrace i key d a (Suc (pred_numeral k))"
  by (simp only: numeral_eq_Suc)

lemma backOff_from_provider_only:
  "backOff_from n (createEmbedding E i k) d a tr = (r, tr') \<Longrightarrow>
   \<exists>mid. tr' = tr @ mid \<and> (\<forall>e\<in>set mid. isProviderEvent e)"
proof (induction n arbitrary: a tr)
  case 0
  then show ?case by simp
next
  case (Suc n)
  let ?tr1 = "if a = 0 then tr else tr @ [Delay (d * 2 ^ (a - 1))]"
  let ?tr2 = "?tr1 @ [CreateEmbedding i k]"
  have ext: "\<exists>m. ?tr2 = tr @ m \<and> (\<forall>e\<in>set m. isProviderEvent e)" by simp
  have req: "createEmbedding E i k ?tr1 = (createEmbedding_r E ?tr2, ?tr2)"
    by (simp add: createEmbedding_def Let_def)
  show ?case
  proof (cases "createEmbedding_r E ?tr2")
    case (Inr v)
    with Suc.prems req have "tr' = ?tr2" by (simp add: Let_def)
    with ext show ?thesis by simp
  next
    case (Inl e)
    show ?thesis
    proof (cases "n = 0")
      case True
      with Inl Suc.prems req have "tr' = ?tr2" by (simp add: Let_def)
      with ext show ?thesis by simp
    next
      case False
      with Inl Suc.prems req have "backOff_from n (createEmbedding E i k) d (Suc a) ?tr2 = (r, tr')"
        by (simp add: Let_def)
      from Suc.IH[OF this] obtain mid where m: "tr' = ?tr2 @ mid" "\<forall>e\<in>set mid. isProviderEvent e"
        by blast
      from ext obtain m0 where m0: "?tr2 = tr @ m0" "\<forall>e\<in>set m0. isProviderEvent e" by blast
      have "tr' = tr @ (m0 @ mid)" using m(1) m0(1) by simp
      moreover have "\<forall>e\<in>set (m0 @ mid). isProviderEvent e" using m(2) m0(2) by auto
      ultimately show ?thesis by blast
    qed
  qed
qed

lemma backOff_from_failed:
  "0 < n \<Longrightarrow> backOff_from n (createEmbedding E i k) d a tr = (Inl e, tr') \<Longrightarrow>
   tr' = tr @ attemptsTrace i k d a n"
proof (induction n arbitrary: a tr)
  case 0
  then show ?case by simp
next
  case (Suc n)
  let ?tr1 = "if a = 0 then tr else tr @ [Delay (d * 2 ^ (a - 1))]"
  let ?tr2 = "?tr1 @ [CreateEmbedding i k]"
  have req: "createEmbedding E i k ?tr1 = (createEmbedding_r E ?tr2, ?tr2)"
    by (simp add: createEmbedding_def Let_def)
  show ?case
  proof (cases "createEmbedding_r E ?tr2")
    case (Inr v)
    with Suc.prems req show ?thesis by (simp add: Let_def)
  next
    case (Inl e')
    show ?thesis
    proof (cases "n = 0")
      case True
      with Inl Suc.prems req show ?thesis by (auto simp: Let_def)
    next
      case False
      with Inl Suc.prems req have "backOff_from n (createEmbedding E i k) d (Suc a) ?tr2 = (Inl e, tr')"
        by (simp add: Let_def)
      from Suc.IH[OF _ this] False have "tr' = ?tr2 @ attemptsTrace i k d (Suc a) n" by simp
      then show ?thesis by simp
    qed
  qed
qed

lemma embedSections_append:
  "embedSections E m fid p key (xs @ ys) st =
   embedSections E m fid p key ys (embedSections E m fid p key xs st)"
  by (induction xs arbitrary: st) simp_all

lemma embedSection_failed:
  assumes "m \<le> length (collapseNewlines c)"
    and "backOff (createEmbedding E (collapseNewlines c) key) embedOptions (trace st) = (Inl e, tr')"
  shows "embedSection E m fid p key c st =
         st\<lparr>errors := errors st @ [embedError p (collapseNewlines c) (exn_text e)], trace := tr'\<rparr>"
  using assms by (simp add: embedSection_def Let_def)

lemma embedSection_trace:
  "\<exists>mid. trace (embedSection E m fid p key c st) = trace st @ mid \<and> (\<forall>e\<in>set mid. isProviderEvent e)"
proof (cases "length (collapseNewlines c) < m")
  case True
  then show ?thesis by (simp add: embedSection_def Let_def)
next
  case False
  obtain r tr' where b: "backOff (createEmbedding E (collapseNewlines c) key) embedOptions (trace st) = (r, tr')"
    by (cases "backOff (createEmbedding E (collapseNewlines c) key) embedOptions (trace st)") auto
  then have "\<exists>mid. tr' = trace st @ mid \<and> (\<forall>e\<in>set mid. isProviderEvent e)"
    unfolding backOff_def by (rule backOff_from_provider_only)
  moreover have "trace (embedSection E m fid p key c st) = tr'"
    using False b by (simp add: embedSection_def Let_def split: sum.splits list.splits option.splits)
  ultimately show ?thesis by simp
qed

lemma embedSections_trace:
  "\<exists>mid. trace (embedSections E m fid p key cs st) = trace st @ mid \<and> (\<forall>e\<in>set mid. isProviderEvent e)"
proof (induction cs arbitrary: st)
  case Nil
  then show ?case by simp
next
  case (Cons c cs)
  from embedSection_trace[of E m fid p key c st] obtain m1 where
    m1: "trace (embedSection E m fid p key c st) = trace st @ m1" "\<forall>e\<in>set m1. isProviderEvent e"
    by blast
  from Cons.IH[of "embedSection E m fid p key c st"] obtain m2 where
    m2: "trace (embedSections E m fid p key cs (embedSection E m fid p key c st))
          = trace (embedSection E m fid p key c st) @ m2" "\<forall>e\<in>set m2. isProviderEvent e"
    by blast
  have "trace (embedSections E m fid p key (c # cs) st) = trace st @ (m1 @ m2)"
    using m1(1) m2(1) by simp
  moreover have "\<forall>e\<in>set (m1 @ m2). isProviderEvent e" using m1(2) m2(2) by auto
  ultimately show ?case by blast
qed

lemma foldl_single_inserts:
  "foldl (\<lambda>t d. t @ [InsertFileSections [d]]) tr rows = tr @ map (\<lambda>d. InsertFileSections [d]) rows"
  by (induction rows arbitrary: tr) simp_all

lemma embedSection_grows:
  "\<exists>d r. embeddingsData (embedSection E m fid p key c st) = embeddingsData st @ d
         \<and> errors (embedSection E m fid p key c st) = errors st @ r"
  by (simp add: embedSection_def Let_def split: prod.splits sum.splits list.splits option.splits)

lemma embedSections_grows:
  "\<exists>d r. embeddingsData (embedSections E m fid p key cs st) = embeddingsData st @ d
         \<and> errors (embedSections E m fid p key cs st) = errors st @ r"
proof (induction cs arbitrary: st)
  case Nil
  then show ?case by simp
next
  case (Cons c cs)
  from embedSection_grows[of E m fid p key c st] obtain d1 r1 where
    s1: "embeddingsData (embedSection E m fid p key c st) = embeddingsData st @ d1"
        "errors (embedSection E m fid p key c st) = errors st @ r1"
    by blast
  from Cons.IH[of "embedSection E m fid p key c st"] obtain d2 r2 where
    s2: "embeddingsData (embedSections E m fid p key cs (embedSection E m fid p key c st))
           = embeddingsData (embedSection E m fid p key c st) @ d2"
        "errors (embedSections E m fid p key cs (embedSection E m fid p key c st))
           = errors (embedSection E m fid p key c st) @ r2"
    by blast
  have "embeddingsData (embedSections E m fid p key (c # cs) st) = embeddingsData st @ (d1 @ d2)"
    using s1(1) s2(1) by simp
  moreover have "errors (embedSections E m fid p key (c # cs) st) = errors st @ (r1 @ r2)"
    using s1(2) s2(2) by simp
  ultimately show ?case by blast
qed

lemma foldl_sub_split:
  "foldl (\<lambda>acc v. acc @ splitWithinTokenCutoff cutoff v) a secs
     = a @ concat (map (splitWithinTokenCutoff cutoff) secs)"
  by (induction secs arbitrary: a) simp_all

lemmas example_defs =
  generateFileEmbeddings_def processFile_def exampleLibs_def exampleEnv_def exampleFile_def
  splitMarkdownIntoSections_def splitMarkdocIntoSections_def splitTreeBy_def
  splitTreeBy_step_def isHeading_def notMdxNode_def splitWithinTokenCutoff_def
  TOKEN_CUTOFF_ADJUSTED_def estimatedTokens_def resolveFile_def embedSection_def backOff_def
  embedOptions_def createEmbedding_def collapseNewlines_def storeEmbeddings_def NL_def Let_def
  embedError_def piecesLines_def tailLinesTokens_def backOff_from_numeral attemptsTrace_numeral

lemma backOff_from_all_fail:
  assumes "\<And>h. createEmbedding_r E (h @ [CreateEmbedding i k]) = Inl e"
  shows "0 < n \<Longrightarrow>
         backOff_from n (createEmbedding E i k) d a tr = (Inl e, tr @ attemptsTrace i k d a n)"
proof (induction n arbitrary: a tr)
  case 0
  then show ?case by simp
next
  case (Suc n)
  let ?tr1 = "if a = 0 then tr else tr @ [Delay (d * 2 ^ (a - 1))]"
  let ?tr2 = "?tr1 @ [CreateEmbedding i k]"
  have req: "createEmbedding E i k ?tr1 = (Inl e, ?tr2)"
    using assms[of ?tr1] by (simp add: createEmbedding_def Let_def)
  show ?case
  proof (cases "n = 0")
    case True
    with req show ?thesis by (auto simp: Let_def)
  next
    case False
    then have "backOff_from n (createEmbedding E i k) d (Suc a) ?tr2
                 = (Inl e, ?tr2 @ attemptsTrace i k d (Suc a) n)"
      using Suc.IH[of "Suc a" ?tr2] by simp
    with req False show ?thesis by (auto simp: Let_def)
  qed
qed

lemma backOff_first_attempt:
  assumes "createEmbedding_r E (tr @ [CreateEmbedding i k]) = Inr r"
  shows "backOff (createEmbedding E i k) embedOptions tr = (Inr r, tr @ [CreateEmbedding i k])"
proof -
  have "createEmbedding E i k tr = (Inr r, tr @ [CreateEmbedding i k])"
    using assms by (simp add: createEmbedding_def Let_def)
  then have "backOff_from (Suc n) (createEmbedding E i k) d 0 tr
               = (Inr r, tr @ [CreateEmbedding i k])" for n d
    by (simp add: Let_def)
  from this[of 9 10000]
  have "backOff_from 10 (createEmbedding E i k) 10000 0 tr = (Inr r, tr @ [CreateEmbedding i k])"
    by (simp del: backOff_from.simps)
  then show ?thesis by (simp add: backOff_def embedOptions_def del: backOff_from.simps)
qed

lemma embedSection_first_attempt:
  assumes "m \<le> length (collapseNewlines c)"
    and "createEmbedding_r E (trace st @ [CreateEmbedding (collapseNewlines c) key]) = Inr r"
    and "usage r = Some (Some n)"
    and "data r = v # vs"
  shows "embedSection E m fid p key c st =
           st\<lparr>embeddingsTokenCount := embeddingsTokenCount st + n,
              embeddingsData := embeddingsData st
                @ [\<lparr>file_id = fid, content = collapseNewlines c, embedding = v, token_count = n\<rparr>],
              trace := trace st @ [CreateEmbedding (collapseNewlines c) key]\<rparr>"
  using assms backOff_first_attempt[OF assms(2)]
  by (simp add: embedSection_def Let_def)

lemma exampleEnv_provider:
  "createEmbedding_r (exampleEnv found created insertError) h =
     (case rev h of
        CreateEmbedding i k # _ \<Rightarrow>
          if take 3 i = ''bad'' then Inl (Exn ''Error: 429'')
          else Inr \<lparr>usage = Some (Some (length i)), data = [[1]]\<rparr>
      | _ \<Rightarrow> Inl (Exn ''Error: no call''))"
  by (simp add: exampleEnv_def)

section \<open>The claims\<close>

text \<open>
  Claim C1, as amended. The claim says that every piece has an estimate below the
  budget. The loop does not count the line that opens a piece, nor the newlines it
  glues the lines with. What holds, for a positive cutoff: a section under the budget is
  returned as it is; otherwise, in every piece, the lines after the first have
  estimates that sum to less than the budget, so the piece's own estimate is below the
  budget plus the estimate of its first line plus a quarter of a token for each
  newline in it.
\<close>

theorem splitWithinTokenCutoff_pieces_budget:
  assumes "0 < cutoff" and "p \<in> set (splitWithinTokenCutoff cutoff s)"
  shows "if estimatedTokens s < TOKEN_CUTOFF_ADJUSTED cutoff
         then p = s \<and> estimatedTokens p < TOKEN_CUTOFF_ADJUSTED cutoff
         else tailLinesTokens p < TOKEN_CUTOFF_ADJUSTED cutoff
              \<and> estimatedTokens p
                  < TOKEN_CUTOFF_ADJUSTED cutoff + estimatedTokens (hd (split_nl p))
                    + real (length (split_nl p) - 1) / 4"
proof (cases "estimatedTokens s < TOKEN_CUTOFF_ADJUSTED cutoff")
  case True
  with assms show ?thesis by (simp add: splitWithinTokenCutoff_def estimatedTokens_def)
next
  case False
  let ?B = "TOKEN_CUTOFF_ADJUSTED cutoff"
  have B: "0 < ?B" using assms(1) by (simp add: TOKEN_CUTOFF_ADJUSTED_def)
  obtain subs cnt acc where run: "splitLoop ?B (split_nl s) ([], 0, []) = (subs, cnt, acc)"
    by (cases "splitLoop ?B (split_nl s) ([], 0, [])") auto
  have u0: "tailLinesTokens [] = 0" by (simp add: tailLinesTokens_def)
  have e: "\<forall>p\<in>set []. tailLinesTokens p < ?B" by simp
  have nl: "\<forall>l\<in>set (split_nl s). NL \<notin> set l" using split_nl_lines_no_NL by blast
  from splitLoop_budget[OF B B u0 e nl run]
  have inv: "cnt < ?B \<and> tailLinesTokens acc = cnt \<and> (\<forall>p\<in>set subs. tailLinesTokens p < ?B)" .
  from assms(2) False run have "p \<in> set subs \<or> p = acc"
    by (auto simp: splitWithinTokenCutoff_def estimatedTokens_def split: if_splits)
  with inv have t: "tailLinesTokens p < ?B" by auto
  then have "estimatedTokens p
      < ?B + estimatedTokens (hd (split_nl p)) + real (length (split_nl p) - 1) / 4"
    using piece_tokens[of p] by linarith
  with t False show ?thesis by simp
qed

theorem splitWithinTokenCutoff_pieces_budget_witness:
  "(0::real) < 5
   \<and> ''bbbbbbbbbbbb'' @ [NL] @ ''cccccccccccc''
       \<in> set (splitWithinTokenCutoff 5
                (''aaaaaaaaaaaa'' @ [NL] @ ''bbbbbbbbbbbb'' @ [NL] @ ''cccccccccccc''))
   \<and> \<not> estimatedTokens (''aaaaaaaaaaaa'' @ [NL] @ ''bbbbbbbbbbbb'' @ [NL] @ ''cccccccccccc'')
         < TOKEN_CUTOFF_ADJUSTED 5
   \<and> tailLinesTokens (''bbbbbbbbbbbb'' @ [NL] @ ''cccccccccccc'') < TOKEN_CUTOFF_ADJUSTED 5"
proof -
  let ?s = "''aaaaaaaaaaaa'' @ [NL] @ ''bbbbbbbbbbbb'' @ [NL] @ ''cccccccccccc''"
  let ?p = "''bbbbbbbbbbbb'' @ [NL] @ ''cccccccccccc''"
  have h1: "(0::real) < 5" by simp
  have h2: "?p \<in> set (splitWithinTokenCutoff 5 ?s)" by (simp add: example_defs)
  have h3: "\<not> estimatedTokens ?s < TOKEN_CUTOFF_ADJUSTED 5" by (simp add: example_defs)
  show ?thesis
    using h1 h2 h3 splitWithinTokenCutoff_pieces_budget[OF h1 h2] by simp
qed

text \<open>
  Against C1 as stated: with a cutoff of 5 the budget is 4 tokens; a section that is one
  line of 20 characters is returned as an empty piece and the line itself, whose
  estimate is 5 tokens.
\<close>

theorem splitWithinTokenCutoff_piece_over_budget:
  "splitWithinTokenCutoff 5 ''aaaaaaaaaaaaaaaaaaaa'' = [[], ''aaaaaaaaaaaaaaaaaaaa'']
   \<and> \<not> estimatedTokens ''aaaaaaaaaaaaaaaaaaaa'' < TOKEN_CUTOFF_ADJUSTED 5"
  by (simp add: example_defs)

text \<open>
  Claim C2, as amended. The claim says that the lines of the pieces are exactly the
  lines of the section. On the line-splitting path the buffer starts empty and every
  line is glued to it after a newline, so the pieces begin with one empty line that the
  section does not have. What holds, for a positive cutoff: the lines of the pieces, in
  order, are the lines of the section, in order, none dropped and none repeated, and on
  the line-splitting path they come after one added empty line.
\<close>

theorem splitWithinTokenCutoff_lines:
  assumes "0 < cutoff"
  shows "piecesLines (splitWithinTokenCutoff cutoff s) =
         (if estimatedTokens s < TOKEN_CUTOFF_ADJUSTED cutoff then split_nl s
          else [] # split_nl s)"
proof (cases "estimatedTokens s < TOKEN_CUTOFF_ADJUSTED cutoff")
  case True
  then show ?thesis
    by (simp add: splitWithinTokenCutoff_def estimatedTokens_def piecesLines_def)
next
  case False
  let ?B = "TOKEN_CUTOFF_ADJUSTED cutoff"
  have B: "0 < ?B" using assms(1) by (simp add: TOKEN_CUTOFF_ADJUSTED_def)
  obtain subs cnt acc where run: "splitLoop ?B (split_nl s) ([], 0, []) = (subs, cnt, acc)"
    by (cases "splitLoop ?B (split_nl s) ([], 0, [])") auto
  have nl: "\<forall>l\<in>set (split_nl s). NL \<notin> set l" using split_nl_lines_no_NL by blast
  have ne: "acc \<noteq> []"
    using splitLoop_acc[OF B B _ run] split_nl_nonempty by blast
  from splitLoop_lines[OF nl run]
  have "piecesLines subs @ split_nl acc = [] # split_nl s" by (simp add: piecesLines_def)
  with ne run False show ?thesis
    by (simp add: splitWithinTokenCutoff_def estimatedTokens_def piecesLines_def)
qed

theorem splitWithinTokenCutoff_lines_witness:
  "(0::real) < 5
   \<and> piecesLines (splitWithinTokenCutoff 5 (''aaaaaaaa'' @ [NL] @ ''bbbbbbbb''))
       = [[], ''aaaaaaaa'', ''bbbbbbbb'']
   \<and> split_nl (''aaaaaaaa'' @ [NL] @ ''bbbbbbbb'') = [''aaaaaaaa'', ''bbbbbbbb'']"
proof -
  have h1: "(0::real) < 5" by simp
  show ?thesis
    using h1 splitWithinTokenCutoff_lines[OF h1, of "''aaaaaaaa'' @ [NL] @ ''bbbbbbbb''"]
    by (simp add: example_defs)
qed

text \<open>
  Against C2 as stated: with a budget of 4 tokens, a section that is one line of 16
  characters comes back as two pieces, the first empty; their lines are an empty line
  and the section's line, while the section has the one line.
\<close>

theorem splitWithinTokenCutoff_extra_line:
  "piecesLines (splitWithinTokenCutoff 5 ''aaaaaaaaaaaaaaaa'') = [[], ''aaaaaaaaaaaaaaaa'']
   \<and> split_nl ''aaaaaaaaaaaaaaaa'' = [''aaaaaaaaaaaaaaaa'']
   \<and> piecesLines (splitWithinTokenCutoff 5 ''aaaaaaaaaaaaaaaa'') \<noteq> split_nl ''aaaaaaaaaaaaaaaa''"
  by (simp add: example_defs)

text \<open>
  Claim C3, as amended. With \<open>k\<close> headings among the top-level children, the splitter
  returns \<open>k\<close> trees, and one more exactly when the first child exists and is not a
  heading; the children of the returned trees, put end to end, are the children of the
  tree in their order; each tree gives one section; and a tree with no heading gives
  the one tree that holds all of it when it has a child, and no tree at all when it has
  none.
\<close>

theorem splitTreeBy_sections:
  "length (splitTreeBy tree isHeading) =
     length (filter isHeading (children tree))
     + (if children tree \<noteq> [] \<and> \<not> isHeading (hd (children tree)) then 1 else 0)
   \<and> concat (map children (splitTreeBy tree isHeading)) = children tree
   \<and> (filter isHeading (children tree) = [] \<longrightarrow>
        splitTreeBy tree isHeading = (if children tree = [] then [] else [tree]))
   \<and> (map_throwing (toMarkdown L) (splitTreeBy tree isHeading) = Inr secs \<longrightarrow>
        length secs = length (splitTreeBy tree isHeading))"
  by (cases tree)
    (simp add: splitTreeBy_def foldl_step_length foldl_step_concat foldl_step_no_match
       map_throwing_length)

theorem splitTreeBy_sections_witness:
  "filter isHeading
     (children (Root [Content ''paragraph'' [] ''intro'', Content ''list'' [] ''items''])) = []
   \<and> map_throwing (toMarkdown exampleLibs)
        (splitTreeBy (Root [Content ''paragraph'' [] ''intro'', Content ''list'' [] ''items''])
           isHeading) = Inr [''introitems'']
   \<and> splitTreeBy (Root [Content ''paragraph'' [] ''intro'', Content ''list'' [] ''items''])
        isHeading
       = [Root [Content ''paragraph'' [] ''intro'', Content ''list'' [] ''items'']]"
proof -
  let ?T = "Root [Content ''paragraph'' [] ''intro'', Content ''list'' [] ''items'']"
  have h1: "filter isHeading (children ?T) = []" by (simp add: isHeading_def)
  have h2: "map_throwing (toMarkdown exampleLibs) (splitTreeBy ?T isHeading) = Inr [''introitems'']"
    by code_simp
  show ?thesis
    using h1 h2 splitTreeBy_sections[of ?T exampleLibs "[''introitems'']"] by simp
qed

text \<open>
  Against C3 as stated: the tree without children has no heading, and the splitter
  returns no section for it, not one.
\<close>

theorem splitTreeBy_empty_tree:
  "filter isHeading (children (Root [])) = []
   \<and> splitTreeBy (Root []) isHeading = []
   \<and> length (splitTreeBy (Root []) isHeading) \<noteq> 1"
  by (simp add: splitTreeBy_def)

text \<open>
  Claim C4. A section whose estimate, its length over four, is strictly below the
  budget is returned alone and unchanged.
\<close>

theorem splitWithinTokenCutoff_short:
  "estimatedTokens s < TOKEN_CUTOFF_ADJUSTED cutoff \<Longrightarrow> splitWithinTokenCutoff cutoff s = [s]"
  by (simp add: splitWithinTokenCutoff_def estimatedTokens_def)

theorem splitWithinTokenCutoff_short_witness:
  "estimatedTokens ''Hello world'' < TOKEN_CUTOFF_ADJUSTED 5
   \<and> splitWithinTokenCutoff 5 ''Hello world'' = [''Hello world'']"
proof -
  have h: "estimatedTokens ''Hello world'' < TOKEN_CUTOFF_ADJUSTED 5"
    by (simp add: estimatedTokens_def TOKEN_CUTOFF_ADJUSTED_def)
  show ?thesis using h splitWithinTokenCutoff_short[OF h] by simp
qed

text \<open>
  Claim C5. Take the loop over the chunks at a chunk \<open>c\<close> that is long enough to be
  sent, and let the retried call for it fail with \<open>e\<close>. Then the ten attempts were
  made, the first at once and the second after 10000 milliseconds; the loop goes on
  with the chunks after \<open>c\<close> from a state that differs from the one before \<open>c\<close> in the
  trace and in one more error entry. That entry carries the path of the file, and its
  message is the fixed opening, a quote, the first 20 characters of the chunk (newlines
  turned to spaces), three dots, a quote, a colon and the text of \<open>e\<close>. At the end of
  the loop the rows made before \<open>c\<close> are all there, and the entry for \<open>c\<close> stands
  once, right after the errors made before it.
\<close>

theorem embedSections_failed_chunk:
  assumes "st1 = embedSections E m fid p key before st0"
    and "m \<le> length (collapseNewlines c)"
    and "backOff (createEmbedding E (collapseNewlines c) key) embedOptions (trace st1) = (Inl e, tr')"
    and "entry =
           \<lparr>path = p,
            message = ''Unable to generate embeddings for section starting with '' @ [CHR 0x27]
                      @ take 20 (collapseNewlines c) @ ''...'' @ [CHR 0x27] @ '': ''
                      @ exn_text e\<rparr>"
  shows "embedSections E m fid p key (before @ c # after) st0 =
           embedSections E m fid p key after (st1\<lparr>errors := errors st1 @ [entry], trace := tr'\<rparr>)
         \<and> tr' = trace st1 @ attemptsTrace (collapseNewlines c) key 10000 0 10
         \<and> (\<exists>moreData moreErrors.
               embeddingsData (embedSections E m fid p key (before @ c # after) st0)
                 = embeddingsData st1 @ moreData
               \<and> errors (embedSections E m fid p key (before @ c # after) st0)
                 = errors st1 @ [entry] @ moreErrors)
         \<and> path entry = p
         \<and> (\<exists>opening closing.
               message entry = opening @ take 20 (collapseNewlines c) @ closing)"
proof -
  have entry: "embedError p (collapseNewlines c) (exn_text e) = entry"
    using assms(4) by (simp add: embedError_def)
  let ?st2 = "st1\<lparr>errors := errors st1 @ [entry], trace := tr'\<rparr>"
  have run: "embedSections E m fid p key (before @ c # after) st0
               = embedSections E m fid p key after ?st2"
    using assms(1) embedSection_failed[OF assms(2,3)] entry
    by (simp add: embedSections_append)
  have tr: "tr' = trace st1 @ attemptsTrace (collapseNewlines c) key 10000 0 10"
    using assms(3) backOff_from_failed[of 10 E "collapseNewlines c" key 10000 0 "trace st1" e tr']
    by (simp add: backOff_def embedOptions_def)
  from embedSections_grows[of E m fid p key after ?st2] obtain d r where
    "embeddingsData (embedSections E m fid p key after ?st2) = embeddingsData ?st2 @ d"
    "errors (embedSections E m fid p key after ?st2) = errors ?st2 @ r"
    by blast
  then have "embeddingsData (embedSections E m fid p key (before @ c # after) st0)
                 = embeddingsData st1 @ d
             \<and> errors (embedSections E m fid p key (before @ c # after) st0)
                 = errors st1 @ [entry] @ r"
    using run by simp
  then have more: "\<exists>moreData moreErrors.
               embeddingsData (embedSections E m fid p key (before @ c # after) st0)
                 = embeddingsData st1 @ moreData
               \<and> errors (embedSections E m fid p key (before @ c # after) st0)
                 = errors st1 @ [entry] @ moreErrors"
    by (intro exI)
  have pth: "path entry = p" using assms(4) by simp
  have "message entry =
          (''Unable to generate embeddings for section starting with '' @ [CHR 0x27])
          @ take 20 (collapseNewlines c) @ (''...'' @ [CHR 0x27] @ '': '' @ exn_text e)"
    using assms(4) by simp
  then have snippet: "\<exists>opening closing.
               message entry = opening @ take 20 (collapseNewlines c) @ closing"
    by (intro exI)
  show ?thesis by (intro conjI) (rule run, rule tr, rule more, rule pth, rule snippet)
qed

theorem embedSections_failed_chunk_witness:
  "5 \<le> length (collapseNewlines ''bad chunk with a long tail'')
   \<and> backOff (createEmbedding (exampleEnv None None None)
                (collapseNewlines ''bad chunk with a long tail'') None)
        embedOptions [CreateEmbedding ''first one'' None]
       = (Inl (Exn ''Error: 429''),
          [CreateEmbedding ''first one'' None]
          @ attemptsTrace ''bad chunk with a long tail'' None 10000 0 10)
   \<and> errors (embedSections (exampleEnv None None None) 5 7 ''docs/a.md'' None
               [''first one'', ''bad chunk with a long tail'', ''last one'']
               \<lparr>embeddingsTokenCount = 0, embeddingsData = [], errors = [], trace = []\<rparr>)
       = [\<lparr>path = ''docs/a.md'',
           message = ''Unable to generate embeddings for section starting with '' @ [CHR 0x27]
                     @ ''bad chunk with a lon...'' @ [CHR 0x27] @ '': Error: 429''\<rparr>]
   \<and> map content
        (embeddingsData (embedSections (exampleEnv None None None) 5 7 ''docs/a.md'' None
               [''first one'', ''bad chunk with a long tail'', ''last one'']
               \<lparr>embeddingsTokenCount = 0, embeddingsData = [], errors = [], trace = []\<rparr>))
       = [''first one'', ''last one'']"
proof -
  let ?E = "exampleEnv None None None"
  let ?bad = "''bad chunk with a long tail''"
  let ?st0 = "\<lparr>embeddingsTokenCount = 0, embeddingsData = [], errors = [], trace = []\<rparr>"
  let ?st1 = "embedSections ?E 5 7 ''docs/a.md'' None [''first one''] ?st0"
  let ?tr = "[CreateEmbedding ''first one'' None] @ attemptsTrace ?bad None 10000 0 10"
  let ?entry = "\<lparr>path = ''docs/a.md'',
           message = ''Unable to generate embeddings for section starting with '' @ [CHR 0x27]
                     @ ''bad chunk with a lon...'' @ [CHR 0x27] @ '': Error: 429''\<rparr>"
  have cn: "collapseNewlines ''first one'' = ''first one''"
    "collapseNewlines ?bad = ?bad"
    "collapseNewlines ''last one'' = ''last one''"
    by (simp_all add: collapseNewlines_def NL_def)
  have s1: "embedSection ?E 5 7 ''docs/a.md'' None ''first one'' ?st0
              = \<lparr>embeddingsTokenCount = 9,
                    embeddingsData = [\<lparr>file_id = 7, content = ''first one'', embedding = [1],
                                       token_count = 9\<rparr>],
                    errors = [], trace = [CreateEmbedding ''first one'' None]\<rparr>"
    using embedSection_first_attempt[of 5 "''first one''" ?E ?st0 None
            "\<lparr>usage = Some (Some 9), data = [[1]]\<rparr>" 9 "[1]" "[]" 7 "''docs/a.md''"]
    by (simp add: cn exampleEnv_provider)
  have h2: "5 \<le> length (collapseNewlines ?bad)" by (simp add: cn)
  have b: "backOff (createEmbedding ?E (collapseNewlines ?bad) None) embedOptions
             [CreateEmbedding ''first one'' None] = (Inl (Exn ''Error: 429''), ?tr)"
    using backOff_from_all_fail[of ?E ?bad None "Exn ''Error: 429''" 10 10000 0
            "[CreateEmbedding ''first one'' None]"]
    by (simp add: backOff_def embedOptions_def cn exampleEnv_provider)
  then have h3: "backOff (createEmbedding ?E (collapseNewlines ?bad) None) embedOptions
             (trace ?st1) = (Inl (Exn ''Error: 429''), ?tr)"
    by (simp add: s1)
  have h4: "?entry =
           \<lparr>path = ''docs/a.md'',
            message = ''Unable to generate embeddings for section starting with '' @ [CHR 0x27]
                      @ take 20 (collapseNewlines ?bad) @ ''...'' @ [CHR 0x27] @ '': ''
                      @ exn_text (Exn ''Error: 429'')\<rparr>"
    by (simp add: cn)
  have run: "embedSections ?E 5 7 ''docs/a.md'' None ([''first one''] @ ?bad # [''last one'']) ?st0
          = embedSections ?E 5 7 ''docs/a.md'' None [''last one'']
              (?st1\<lparr>errors := errors ?st1 @ [?entry], trace := ?tr\<rparr>)"
    using embedSections_failed_chunk[OF refl h2 h3 h4, where after = "[''last one'']"]
    by (rule conjunct1)
  have last: "embedSections ?E 5 7 ''docs/a.md'' None [''last one'']
              \<lparr>embeddingsTokenCount = 9,
               embeddingsData = [\<lparr>file_id = 7, content = ''first one'', embedding = [1],
                                  token_count = 9\<rparr>],
               errors = [?entry],
               trace = ?tr\<rparr>
            = \<lparr>embeddingsTokenCount = 17,
               embeddingsData = [\<lparr>file_id = 7, content = ''first one'', embedding = [1],
                                  token_count = 9\<rparr>,
                                 \<lparr>file_id = 7, content = ''last one'', embedding = [1],
                                  token_count = 8\<rparr>],
               errors = [?entry],
               trace = ?tr @ [CreateEmbedding ''last one'' None]\<rparr>"
    using embedSection_first_attempt[of 5 "''last one''" ?E
            "\<lparr>embeddingsTokenCount = 9,
               embeddingsData = [\<lparr>file_id = 7, content = ''first one'', embedding = [1],
                                  token_count = 9\<rparr>],
               errors = [?entry],
               trace = ?tr\<rparr>" None
            "\<lparr>usage = Some (Some 8), data = [[1]]\<rparr>" 8 "[1]" "[]" 7 "''docs/a.md''"]
    by (simp add: cn exampleEnv_provider)
  have "embedSections ?E 5 7 ''docs/a.md'' None [''first one'', ?bad, ''last one''] ?st0
          = \<lparr>embeddingsTokenCount = 17,
               embeddingsData = [\<lparr>file_id = 7, content = ''first one'', embedding = [1],
                                  token_count = 9\<rparr>,
                                 \<lparr>file_id = 7, content = ''last one'', embedding = [1],
                                  token_count = 8\<rparr>],
               errors = [?entry],
               trace = ?tr @ [CreateEmbedding ''last one'' None]\<rparr>"
    using run last by (simp add: s1 cn)
  then have e1: "errors (embedSections ?E 5 7 ''docs/a.md'' None
               [''first one'', ?bad, ''last one''] ?st0) = [?entry]"
    and e2: "map content (embeddingsData (embedSections ?E 5 7 ''docs/a.md'' None
               [''first one'', ?bad, ''last one''] ?st0))
               = [''first one'', ''last one'']"
    by simp_all
  show ?thesis by (intro conjI) (rule h2, rule b, rule e1, rule e2)
qed

text \<open>
  Claim C6. When the document was parsed, the lookup of the file finds nothing and its
  creation gives nothing, the function returns the one error for the file's path, and
  the lookup and the creation are the only calls it made: no call of the provider, no
  insertion, no increment of the counter.
\<close>

theorem generateFileEmbeddings_no_file:
  assumes "processFile L cutoff file = Inr fsd"
    and "getFileAtPath_r E [GetFileAtPath pid (file_path file)] = None"
    and "createFile_r E [GetFileAtPath pid (file_path file),
                         CreateFile pid (file_path file) (meta fsd)] = None"
  shows "generateFileEmbeddings L cutoff minlen E pid file key =
     (Inr [\<lparr>path = file_path file,
            message = ''Unable to create file '' @ file_path file @ ''.''\<rparr>],
      [GetFileAtPath pid (file_path file), CreateFile pid (file_path file) (meta fsd)])"
  using assms by (simp add: generateFileEmbeddings_def resolveFile_def Let_def)

theorem generateFileEmbeddings_no_file_witness:
  "processFile exampleLibs 5 exampleFile = Inr \<lparr>sections = [''Hello {world}''], meta = []\<rparr>
   \<and> getFileAtPath_r (exampleEnv None None None) [GetFileAtPath ''proj'' ''docs/a.md''] = None
   \<and> createFile_r (exampleEnv None None None)
        [GetFileAtPath ''proj'' ''docs/a.md'', CreateFile ''proj'' ''docs/a.md'' []] = None
   \<and> generateFileEmbeddings exampleLibs 5 5 (exampleEnv None None None) ''proj'' exampleFile None
       = (Inr [\<lparr>path = ''docs/a.md'', message = ''Unable to create file docs/a.md.''\<rparr>],
          [GetFileAtPath ''proj'' ''docs/a.md'', CreateFile ''proj'' ''docs/a.md'' []])"
proof -
  let ?fsd = "\<lparr>sections = [''Hello {world}''], meta = []\<rparr>"
  have h1: "processFile exampleLibs 5 exampleFile = Inr ?fsd"
    by code_simp
  have h2: "getFileAtPath_r (exampleEnv None None None)
              [GetFileAtPath ''proj'' (file_path exampleFile)] = None"
    by (simp add: exampleEnv_def)
  have h3: "createFile_r (exampleEnv None None None)
              [GetFileAtPath ''proj'' (file_path exampleFile),
               CreateFile ''proj'' (file_path exampleFile) (meta ?fsd)] = None"
    by (simp add: exampleEnv_def)
  show ?thesis
    using h1 h2 h3 generateFileEmbeddings_no_file[OF h1 h2 h3, of 5 None]
    by (simp add: exampleFile_def exampleEnv_def)
qed

text \<open>
  Claim C7. With the file found or created and \<open>st\<close> the state at the end of the loop,
  the function makes one insertion of all the rows. When the store answers without an
  error, no other insertion follows and the errors of the loop are returned. When it
  answers with an error, one entry with the store's message is added to the errors, and
  the same rows are inserted one at a time, in order, whatever each of these insertions
  answers; nothing is deleted afterwards. In both cases the counter is incremented next,
  and that is the last call.
\<close>

theorem generateFileEmbeddings_bulk_insert:
  assumes "processFile L cutoff file = Inr fsd"
    and "resolveFile E pid (file_path file) (meta fsd) = (Some fid, tr0)"
    and "st = embedSections E minlen fid (file_path file) key (sections fsd)
                \<lparr>embeddingsTokenCount = 0, embeddingsData = [], errors = [], trace = tr0\<rparr>"
  shows "generateFileEmbeddings L cutoff minlen E pid file key =
     (case insert_r E (trace st @ [InsertFileSections (embeddingsData st)]) of
        None \<Rightarrow>
          (Inr (errors st),
           trace st @ [InsertFileSections (embeddingsData st)]
             @ [IncrBy pid (embeddingsTokenCount st)])
      | Some msg \<Rightarrow>
          (Inr (errors st
                @ [\<lparr>path = file_path file, message = ''Error storing embeddings: '' @ msg\<rparr>]),
           trace st @ [InsertFileSections (embeddingsData st)]
             @ map (\<lambda>d. InsertFileSections [d]) (embeddingsData st)
             @ [IncrBy pid (embeddingsTokenCount st)]))"
  using assms
  by (simp add: generateFileEmbeddings_def storeEmbeddings_def Let_def foldl_single_inserts
           split: option.splits)

theorem generateFileEmbeddings_bulk_insert_witness:
  "processFile exampleLibs 5 exampleFile = Inr \<lparr>sections = [''Hello {world}''], meta = []\<rparr>
   \<and> resolveFile (exampleEnv None (Some 3) (Some ''too large'')) ''proj'' ''docs/a.md'' []
       = (Some 3, [GetFileAtPath ''proj'' ''docs/a.md'', CreateFile ''proj'' ''docs/a.md'' []])
   \<and> generateFileEmbeddings exampleLibs 5 5 (exampleEnv None (Some 3) (Some ''too large''))
        ''proj'' exampleFile None
       = (Inr [\<lparr>path = ''docs/a.md'', message = ''Error storing embeddings: too large''\<rparr>],
          [GetFileAtPath ''proj'' ''docs/a.md'', CreateFile ''proj'' ''docs/a.md'' [],
           CreateEmbedding ''Hello {world}'' None,
           InsertFileSections
             [\<lparr>file_id = 3, content = ''Hello {world}'', embedding = [1], token_count = 13\<rparr>],
           InsertFileSections
             [\<lparr>file_id = 3, content = ''Hello {world}'', embedding = [1], token_count = 13\<rparr>],
           IncrBy ''proj'' 13])"
proof -
  let ?E = "exampleEnv None (Some 3) (Some ''too large'')"
  let ?fsd = "\<lparr>sections = [''Hello {world}''], meta = []\<rparr>"
  let ?tr0 = "[GetFileAtPath ''proj'' ''docs/a.md'', CreateFile ''proj'' ''docs/a.md'' []]"
  have h1: "processFile exampleLibs 5 exampleFile = Inr ?fsd"
    by code_simp
  have r: "resolveFile ?E ''proj'' ''docs/a.md'' [] = (Some 3, ?tr0)"
    by (simp add: resolveFile_def exampleEnv_def)
  then have h2: "resolveFile ?E ''proj'' (file_path exampleFile) (meta ?fsd) = (Some 3, ?tr0)"
    by (simp add: exampleFile_def)
  have st: "embedSections ?E 5 3 ''docs/a.md'' None [''Hello {world}'']
              \<lparr>embeddingsTokenCount = 0, embeddingsData = [], errors = [], trace = ?tr0\<rparr>
            = \<lparr>embeddingsTokenCount = 13,
               embeddingsData =
                 [\<lparr>file_id = 3, content = ''Hello {world}'', embedding = [1], token_count = 13\<rparr>],
               errors = [],
               trace = ?tr0 @ [CreateEmbedding ''Hello {world}'' None]\<rparr>"
    by code_simp
  have ins: "insert_r ?E t = Some ''too large''" for t
    by (simp add: exampleEnv_def)
  show ?thesis
    using h1 r st generateFileEmbeddings_bulk_insert[OF h1 h2 refl, of 5 None]
    by (simp add: exampleFile_def ins)
qed

text \<open>
  Claim C8. For a file that is neither of type \<open>mdoc\<close> nor of type \<open>html\<close>, when the
  parse as MDX throws, the result of \<open>processFile\<close> is what the Markdoc path gives on
  the same content: its sections, each passed through the sub-splitter, or its throw.
\<close>

theorem processFile_mdx_fallback:
  assumes "getFileType L (file_name file) \<noteq> ''mdoc''"
    and "getFileType L (file_name file) \<noteq> ''html''"
    and "splitMarkdownIntoSections L (file_content file) True = Inl e"
  shows "processFile L cutoff file =
     (case splitMarkdocIntoSections L (file_content file) of
        Inl e' \<Rightarrow> Inl e'
      | Inr secs \<Rightarrow>
          Inr \<lparr>sections = concat (map (splitWithinTokenCutoff cutoff) secs),
               meta = extractFrontmatter L (file_content file)\<rparr>)"
  using assms by (simp add: processFile_def Let_def foldl_sub_split split: sum.splits)

theorem processFile_mdx_fallback_witness:
  "getFileType exampleLibs (file_name exampleFile) \<noteq> ''mdoc''
   \<and> getFileType exampleLibs (file_name exampleFile) \<noteq> ''html''
   \<and> splitMarkdownIntoSections exampleLibs (file_content exampleFile) True
       = Inl (Exn ''Error: Could not parse expression'')
   \<and> splitMarkdocIntoSections exampleLibs (file_content exampleFile) = Inr [''Hello {world}'']
   \<and> processFile exampleLibs 5 exampleFile
       = Inr \<lparr>sections = [''Hello {world}''], meta = []\<rparr>"
proof -
  have h1: "getFileType exampleLibs (file_name exampleFile) \<noteq> ''mdoc''"
    by (simp add: exampleLibs_def)
  have h2: "getFileType exampleLibs (file_name exampleFile) \<noteq> ''html''"
    by (simp add: exampleLibs_def)
  have h3: "splitMarkdownIntoSections exampleLibs (file_content exampleFile) True
              = Inl (Exn ''Error: Could not parse expression'')"
    by (simp add: splitMarkdownIntoSections_def exampleLibs_def exampleFile_def)
  have m: "splitMarkdocIntoSections exampleLibs (file_content exampleFile) = Inr [''Hello {world}'']"
    by code_simp
  have s: "splitWithinTokenCutoff 5 ''Hello {world}'' = [''Hello {world}'']"
    by (simp add: splitWithinTokenCutoff_def TOKEN_CUTOFF_ADJUSTED_def)
  show ?thesis
    using h1 h2 h3 m s processFile_mdx_fallback[OF h1 h2 h3, of 5]
    by (simp add: exampleLibs_def exampleFile_def)
qed

text \<open>
  Claim C9, as amended. The claim puts every mutation of the store after the loop over
  the chunks. In the code the rows of a file that was found are deleted and its
  metadata updated, or the file is created, before the loop. What holds, when the file
  is found or created: the calls before the loop are the lookup followed by the deletion
  and the update, or by the creation; while the loop runs, the only calls are calls of
  the provider and the waits between its retries; the insertions, at least one, come
  after the loop, and the increment of the counter is the last call.
\<close>

theorem generateFileEmbeddings_call_order:
  assumes "processFile L cutoff file = Inr fsd"
    and "resolveFile E pid (file_path file) (meta fsd) = (Some fid, tr0)"
  shows "(tr0 = [GetFileAtPath pid (file_path file), DeleteFileSections fid,
                 UpdateFileMeta fid (meta fsd)]
          \<or> tr0 = [GetFileAtPath pid (file_path file), CreateFile pid (file_path file) (meta fsd)])
       \<and> (\<exists>mid inserts n.
             snd (generateFileEmbeddings L cutoff minlen E pid file key)
               = tr0 @ mid @ inserts @ [IncrBy pid n]
             \<and> list_all isProviderEvent mid \<and> inserts \<noteq> [] \<and> list_all isInsert inserts)"
proof
  show "tr0 = [GetFileAtPath pid (file_path file), DeleteFileSections fid,
                 UpdateFileMeta fid (meta fsd)]
          \<or> tr0 = [GetFileAtPath pid (file_path file), CreateFile pid (file_path file) (meta fsd)]"
    using assms(2) by (auto simp: resolveFile_def Let_def split: option.splits)
  let ?st = "embedSections E minlen fid (file_path file) key (sections fsd)
                \<lparr>embeddingsTokenCount = 0, embeddingsData = [], errors = [], trace = tr0\<rparr>"
  from embedSections_trace[of E minlen fid "file_path file" key "sections fsd"
      "\<lparr>embeddingsTokenCount = 0, embeddingsData = [], errors = [], trace = tr0\<rparr>"]
  obtain mid where mid: "trace ?st = tr0 @ mid" "\<forall>e\<in>set mid. isProviderEvent e"
    by auto
  let ?ins = "InsertFileSections (embeddingsData ?st)
     # (case insert_r E (trace ?st @ [InsertFileSections (embeddingsData ?st)]) of
          None \<Rightarrow> [] | Some msg \<Rightarrow> map (\<lambda>d. InsertFileSections [d]) (embeddingsData ?st))"
  have "snd (generateFileEmbeddings L cutoff minlen E pid file key)
          = tr0 @ mid @ ?ins @ [IncrBy pid (embeddingsTokenCount ?st)]"
    using assms mid(1)
    by (simp add: generateFileEmbeddings_def storeEmbeddings_def Let_def foldl_single_inserts
           split: option.splits)
  moreover have "list_all isProviderEvent mid" using mid(2) by (simp add: list_all_iff)
  moreover have "?ins \<noteq> []" by simp
  moreover have "list_all isInsert ?ins" by (simp add: list_all_iff split: option.splits) auto
  ultimately show "\<exists>mid inserts n.
             snd (generateFileEmbeddings L cutoff minlen E pid file key)
               = tr0 @ mid @ inserts @ [IncrBy pid n]
             \<and> list_all isProviderEvent mid \<and> inserts \<noteq> [] \<and> list_all isInsert inserts"
    by blast
qed

theorem generateFileEmbeddings_call_order_witness:
  "processFile exampleLibs 5 exampleFile = Inr \<lparr>sections = [''Hello {world}''], meta = []\<rparr>
   \<and> resolveFile (exampleEnv (Some 7) None None) ''proj'' ''docs/a.md'' []
       = (Some 7, [GetFileAtPath ''proj'' ''docs/a.md'', DeleteFileSections 7, UpdateFileMeta 7 []])
   \<and> (\<exists>mid inserts n.
         snd (generateFileEmbeddings exampleLibs 5 5 (exampleEnv (Some 7) None None)
                ''proj'' exampleFile None)
           = [GetFileAtPath ''proj'' ''docs/a.md'', DeleteFileSections 7, UpdateFileMeta 7 []]
             @ mid @ inserts @ [IncrBy ''proj'' n]
         \<and> list_all isProviderEvent mid \<and> inserts \<noteq> [] \<and> list_all isInsert inserts)"
proof -
  let ?E = "exampleEnv (Some 7) None None"
  let ?fsd = "\<lparr>sections = [''Hello {world}''], meta = []\<rparr>"
  let ?tr0 = "[GetFileAtPath ''proj'' ''docs/a.md'', DeleteFileSections 7, UpdateFileMeta 7 []]"
  have h1: "processFile exampleLibs 5 exampleFile = Inr ?fsd"
    by code_simp
  have r: "resolveFile ?E ''proj'' ''docs/a.md'' [] = (Some 7, ?tr0)"
    by (simp add: resolveFile_def exampleEnv_def)
  then have h2: "resolveFile ?E ''proj'' (file_path exampleFile) (meta ?fsd) = (Some 7, ?tr0)"
    by (simp add: exampleFile_def)
  show ?thesis
    using h1 r generateFileEmbeddings_call_order[OF h1 h2, of 5 None]
    by (simp add: exampleFile_def)
qed

text \<open>
  Against C9 as stated: for a file that is found, the deletion of its rows and the
  update of its metadata are made before the provider is called.
\<close>

theorem generateFileEmbeddings_delete_before_embedding:
  "snd (generateFileEmbeddings exampleLibs 5 5 (exampleEnv (Some 7) None None)
          ''proj'' exampleFile None)
     = [GetFileAtPath ''proj'' ''docs/a.md'', DeleteFileSections 7, UpdateFileMeta 7 [],
        CreateEmbedding ''Hello {world}'' None,
        InsertFileSections
          [\<lparr>file_id = 7, content = ''Hello {world}'', embedding = [1], token_count = 13\<rparr>],
        IncrBy ''proj'' 13]
   \<and> \<not> mutationsAfterEmbedding
         (snd (generateFileEmbeddings exampleLibs 5 5 (exampleEnv (Some 7) None None)
                 ''proj'' exampleFile None))"
  by code_simp

text \<open>
  Claim C10. On the line-splitting path, when the estimate of the first line alone
  reaches the budget, the first piece returned is the empty string.
\<close>

theorem splitWithinTokenCutoff_empty_first_piece:
  assumes "\<not> estimatedTokens s < TOKEN_CUTOFF_ADJUSTED cutoff"
    and "TOKEN_CUTOFF_ADJUSTED cutoff \<le> estimatedTokens (hd (split_nl s))"
  shows "\<exists>rest. splitWithinTokenCutoff cutoff s = [] # rest"
proof -
  let ?B = "TOKEN_CUTOFF_ADJUSTED cutoff"
  obtain l ls where sp: "split_nl s = l # ls"
    using split_nl_nonempty by (cases "split_nl s") auto
  with assms(2) have first: "\<not> 0 + real (length l) / 4 < ?B"
    by (simp add: estimatedTokens_def)
  then have step: "splitLoop ?B (split_nl s) ([], 0, []) = splitLoop ?B ls ([[]], 0, l)"
    using sp by simp
  obtain subs cnt acc where run: "splitLoop ?B ls ([[]], 0, l) = (subs, cnt, acc)"
    by (cases "splitLoop ?B ls ([[]], 0, l)") auto
  from splitLoop_prefix[of ?B ls "[[]]" 0 l] run obtain ext where "subs = [[]] @ ext"
    by auto
  then have "(if acc \<noteq> [] then subs @ [acc] else subs) = [] # (if acc \<noteq> [] then ext @ [acc] else ext)"
    by simp
  moreover have "splitWithinTokenCutoff cutoff s = (if acc \<noteq> [] then subs @ [acc] else subs)"
    using assms(1) step run by (simp add: splitWithinTokenCutoff_def estimatedTokens_def)
  ultimately show ?thesis by simp
qed

theorem splitWithinTokenCutoff_empty_first_piece_witness:
  "\<not> estimatedTokens (''aaaaaaaaaaaaaaaa'' @ [NL] @ ''b'') < TOKEN_CUTOFF_ADJUSTED 5
   \<and> TOKEN_CUTOFF_ADJUSTED 5 \<le> estimatedTokens (hd (split_nl (''aaaaaaaaaaaaaaaa'' @ [NL] @ ''b'')))
   \<and> splitWithinTokenCutoff 5 (''aaaaaaaaaaaaaaaa'' @ [NL] @ ''b'')
       = [[], ''aaaaaaaaaaaaaaaa'' @ [NL] @ ''b'']"
proof -
  let ?s = "''aaaaaaaaaaaaaaaa'' @ [NL] @ ''b''"
  have h1: "\<not> estimatedTokens ?s < TOKEN_CUTOFF_ADJUSTED 5" by code_simp
  have h2: "TOKEN_CUTOFF_ADJUSTED 5 \<le> estimatedTokens (hd (split_nl ?s))"
    by code_simp
  have whole: "splitWithinTokenCutoff 5 ?s = [[], ?s]" by code_simp
  from splitWithinTokenCutoff_empty_first_piece[OF h1 h2]
  have "\<exists>rest. splitWithinTokenCutoff 5 ?s = [] # rest" .
  with h1 h2 whole show ?thesis by blast
qed

end
